theory Spec2Isabelle
  imports Main "HOL-Library.Sublist"
begin

section \<open>JavaScript string primitives\<close>

text \<open>
  A JavaScript string is modelled as a \<^typ>\<open>string\<close> whose characters are the code units
  below 256. In that range the white space of the regular expression class \<open>\s\<close> and of
  \<open>String.prototype.trim\<close> is: tab, line feed, vertical tab, form feed, carriage return,
  space and the no-break space.
\<close>

definition isspace :: "char \<Rightarrow> bool" where
  "isspace c = (of_char c \<in> {9, 10, 11, 12, 13, 32, 160 :: nat})"

text \<open>\<open>s.trim()\<close>\<close>

definition trim :: "string \<Rightarrow> string" where
  "trim s = rev (dropWhile isspace (rev (dropWhile isspace s)))"

text \<open>
  \<open>s.split(/\s+/)\<close>: the pieces between the maximal runs of white space. The empty string
  gives one empty piece; white space at the start or at the end gives an empty piece at
  that end. The first argument is the piece read so far (reversed), the second says
  whether the scan stands inside a run of white space.
\<close>

fun split_scan :: "string \<Rightarrow> bool \<Rightarrow> string \<Rightarrow> string list" where
  "split_scan tok inws [] = [rev tok]"
| "split_scan tok inws (c # cs) =
     (if isspace c then (if inws then split_scan [] True cs else rev tok # split_scan [] True cs)
      else split_scan (c # tok) False cs)"

definition split_ws :: "string \<Rightarrow> string list" where
  "split_ws s = split_scan [] False s"

text \<open>\<open>s.startsWith(':')\<close>\<close>

definition startsWithColon :: "string \<Rightarrow> bool" where
  "startsWithColon s = (case s of [] \<Rightarrow> False | c # _ \<Rightarrow> c = CHR '':'')"

text \<open>\<open>s.toLowerCase()\<close> on code units below 256.\<close>

definition lower_char :: "char \<Rightarrow> char" where
  "lower_char c =
     (let n = (of_char c :: nat)
      in if (65 \<le> n \<and> n \<le> 90) \<or> (192 \<le> n \<and> n \<le> 222 \<and> n \<noteq> 215)
         then char_of (n + 32) else c)"

definition toLowerCase :: "string \<Rightarrow> string" where
  "toLowerCase s = map lower_char s"

text \<open>
  Truthiness of a value of type \<open>string | null | undefined\<close>: \<open>None\<close> stands for
  \<open>null\<close> and \<open>undefined\<close>; the empty string is falsy as well.
\<close>

definition truthy :: "string option \<Rightarrow> bool" where
  "truthy v = (case v of None \<Rightarrow> False | Some s \<Rightarrow> s \<noteq> [])"

text \<open>\<open>a || d\<close> for an optional string \<open>a\<close> and a string \<open>d\<close>.\<close>

definition or_else :: "string option \<Rightarrow> string \<Rightarrow> string" where
  "or_else v d = (case v of None \<Rightarrow> d | Some s \<Rightarrow> if s = [] then d else s)"

text \<open>\<open>xs.join(' ')\<close>\<close>

fun join_sp :: "string list \<Rightarrow> string" where
  "join_sp [] = []"
| "join_sp [x] = x"
| "join_sp (x # y # ys) = x @ '' '' @ join_sp (y # ys)"

text \<open>The decimal text of a number, as a template literal renders it.\<close>

fun decimal :: "nat \<Rightarrow> string" where
  "decimal n =
     (if n < 10 then [char_of (48 + n)]
      else decimal (n div 10) @ [char_of (48 + n mod 10)])"

declare decimal.simps [simp del]


section \<open>Command Translator: \<open>echo-command-handler.ts\<close>\<close>

text \<open>
  \<open>parseCliCommand\<close>. The destructuring \<open>[mainCommand, subCommand, ...args] = parts\<close>
  leaves \<open>subCommand\<close> undefined when there is one part only, which is \<open>None\<close> here.
  \<open>[subCommand, ...args].filter(Boolean)\<close> drops an undefined or empty entry.
\<close>

definition subCommand_of :: "string list \<Rightarrow> string option" where
  "subCommand_of parts = (case parts of _ # s # _ \<Rightarrow> Some s | _ \<Rightarrow> None)"

definition args_of :: "string list \<Rightarrow> string list" where
  "args_of parts = drop 2 parts"

definition filter_Boolean :: "string option \<Rightarrow> string list \<Rightarrow> string list" where
  "filter_Boolean sub args =
     filter (\<lambda>a. a \<noteq> []) ((case sub of None \<Rightarrow> [] | Some s \<Rightarrow> [s]) @ args)"

definition parse_parts :: "string \<Rightarrow> string list \<Rightarrow> string \<times> string list" where
  "parse_parts command parts =
     (case parts of
        [] \<Rightarrow> ('':help'', [])
      | mainCommand # _ \<Rightarrow>
          (let subCommand = subCommand_of parts; args = args_of parts; verb = toLowerCase mainCommand
           in if verb = ''agent'' then
                (if subCommand = Some ''ask'' then ('':agent'', args)
                 else ('':agent'', filter_Boolean subCommand args))
              else if verb = ''task'' then
                (if subCommand = Some ''add'' \<or> subCommand = Some ''create'' then ('':task add'', args)
                 else if subCommand = Some ''list'' then ('':task list'', args)
                 else if subCommand = Some ''complete'' \<or> subCommand = Some ''done''
                   then ('':task complete'', args)
                 else if subCommand = Some ''delete'' \<or> subCommand = Some ''remove''
                   then ('':task delete'', args)
                 else ('':task list'', []))
              else if verb = ''git'' then
                (if subCommand = Some ''status'' \<or> \<not> truthy subCommand then ('':git status'', args)
                 else if subCommand = Some ''commit'' then ('':git commit'', args)
                 else if subCommand = Some ''branches'' then ('':git branches'', args)
                 else if subCommand = Some ''prs'' \<or> subCommand = Some ''pr'' then ('':git prs'', args)
                 else if subCommand = Some ''config'' then ('':git config'', args)
                 else ('':git status'', []))
              else if verb = ''help'' \<or> verb = ''h'' then ('':help'', args)
              else if verb = ''clear'' \<or> verb = ''cls'' then ('':clear'', args)
              else if verb = ''version'' then ('':version'', args)
              else if verb = ''time'' then ('':time'', args)
              else if verb = ''plugin'' \<or> verb = ''plugins'' then
                ('':plugin'', filter_Boolean subCommand args)
              else if verb = ''memory'' then ('':memory'', args)
              else if verb = ''logs'' then ('':logs'', args)
              else if startsWithColon command then
                (case split_ws command of [] \<Rightarrow> ([], []) | cmd # cmdArgs \<Rightarrow> (cmd, cmdArgs))
              else ('':'' @ mainCommand, filter_Boolean subCommand args)))"

text \<open>
  The sub-verbs that the \<open>task\<close> case and the \<open>git\<close> case of \<open>parseCliCommand\<close>
  compare \<open>subCommand\<close> with.
\<close>

definition task_subverbs :: "string list" where
  "task_subverbs = [''add'', ''create'', ''list'', ''complete'', ''done'', ''delete'', ''remove'']"

definition git_subverbs :: "string list" where
  "git_subverbs = [''status'', ''commit'', ''branches'', ''prs'', ''pr'', ''config'']"

definition cleanCommand :: "string \<Rightarrow> string" where
  "cleanCommand command = (if startsWithColon command then tl command else command)"

definition parseCliCommand :: "string \<Rightarrow> string \<times> string list" where
  "parseCliCommand command = parse_parts command (split_ws (trim (cleanCommand command)))"


section \<open>Backend calls and their outcomes\<close>

text \<open>
  What the awaited \<open>axios\<close> promise settles to: it resolves with the \<open>data\<close> of the
  response, or it rejects with an axios error, which has a \<open>message\<close> and, when the backend
  answered, the \<open>response.data.error\<close> of that answer (\<open>None\<close> when there is none).
\<close>

datatype api_data = ApiData (data_success: bool) (data_output: "string option") (data_error: "string option")

datatype 'a http_outcome = Resolved 'a | AxiosError (axios_data_error: "string option") (axios_message: string)

text \<open>A thrown value: an \<open>Error\<close> the code creates, or the axios error thrown again as it is.\<close>

datatype js_error = Error string | Axios "string option" string

fun message_of :: "js_error \<Rightarrow> string" where
  "message_of (Error m) = m"
| "message_of (Axios _ m) = m"

text \<open>\<open>CommandRequest\<close>, as the interface declares it.\<close>

datatype request_type = EchoCli | System

record CommandRequest =
  id_req :: string
  command :: string
  args :: "string list option"
  workingDirectory :: "string option"
  timeout :: "nat option"
  type_req :: request_type
  userId :: string
  sessionId_req :: string
  createdAt :: string

text \<open>The \<open>result\<close> object of the body that \<open>reportCommandResult\<close> sends.\<close>

record CommandResult =
  success :: bool
  output_text :: "string option"
  error :: "string option"
  executionTime :: int
  commandId :: string
  timestamp :: string

text \<open>
  The requests the listener issues to the backend: the URL, then the body. The body of
  \<open>PUT /api/remote-cli\<close> is its top-level \<open>commandId\<close> and the \<open>result\<close> object.
\<close>

datatype http_call =
    PostCliSession string string "string list" string string
  | PutCliSession string string
  | DeleteCliSession string
  | GetPending string
  | PutRemoteCli string string CommandResult
  | PostEchoCommand string string "string list"

fun is_delete :: "http_call \<Rightarrow> bool" where
  "is_delete (DeleteCliSession _) = True"
| "is_delete _ = False"


section \<open>The listener: \<open>remote-command-handler.ts\<close>\<close>

text \<open>
  The fields of the class \<open>RemoteCommandHandler\<close>. A timer handle is a number; times are
  milliseconds since the epoch.
\<close>

record RemoteCommandHandler =
  apiUrl :: string
  authToken :: string
  sessionId :: string
  isActive :: bool
  pollInterval :: "nat option"
  heartbeatInterval :: "nat option"
  capabilities :: "string list"
  version :: string
  platform :: string
  startTime :: nat
  commandCount :: nat
  lastHeartbeat :: "nat option"
  lastCommandCheck :: "nat option"

text \<open>
  The constructor. \<open>uuid\<close> is what \<open>randomUUID()\<close> returns, \<open>ver\<close> the version of
  \<open>package.json\<close>, \<open>plat\<close> the platform text and \<open>now\<close> the clock.
\<close>

definition new_handler ::
  "string \<Rightarrow> string \<Rightarrow> string \<Rightarrow> string \<Rightarrow> string \<Rightarrow> nat \<Rightarrow> js_error + RemoteCommandHandler" where
  "new_handler url token uuid ver plat now =
     (if url = [] then Inl (Error ''API URL is required'')
      else Inr \<lparr> apiUrl = (if last url = CHR ''/'' then butlast url else url),
                 authToken = token, sessionId = uuid, isActive = False,
                 pollInterval = None, heartbeatInterval = None,
                 capabilities = [''echo-cli'', ''system-commands''],
                 version = ver, platform = plat, startTime = now, commandCount = 0,
                 lastHeartbeat = None, lastCommandCheck = None \<rparr>)"

subsection \<open>Session registration, start and stop\<close>

text \<open>
  \<open>registerSession\<close>: one POST; a response with a falsy \<open>success\<close> throws an \<open>Error\<close> with
  the backend's message, or a fixed one; the \<open>catch\<close> logs and throws the same error again.
\<close>

definition register_call :: "RemoteCommandHandler \<Rightarrow> http_call" where
  "register_call h =
     PostCliSession (apiUrl h @ ''/api/cli-session'') (sessionId h) (capabilities h) (version h) (platform h)"

definition registerSession ::
  "RemoteCommandHandler \<Rightarrow> api_data http_outcome \<Rightarrow> (js_error + unit) \<times> http_call list" where
  "registerSession h outcome =
     (case outcome of
        Resolved d \<Rightarrow>
          (if \<not> data_success d
           then (Inl (Error (or_else (data_error d) ''Failed to register session'')), [register_call h])
           else (Inr (), [register_call h]))
      | AxiosError e m \<Rightarrow> (Inl (Axios e m), [register_call h]))"

text \<open>
  \<open>start\<close>: registers, then arms the two timers (\<open>poll\<close> and \<open>beat\<close> are the handles
  \<open>setInterval\<close> returns) and sets \<open>isActive\<close>. An error of the registration leaves the
  \<open>try\<close> block before any of that and is thrown again.
\<close>

definition start ::
  "RemoteCommandHandler \<Rightarrow> api_data http_outcome \<Rightarrow> nat \<Rightarrow> nat \<Rightarrow> nat \<Rightarrow>
   (js_error + unit) \<times> RemoteCommandHandler \<times> http_call list" where
  "start h outcome poll beat now =
     (case registerSession h outcome of
        (Inl e, calls) \<Rightarrow> (Inl e, h, calls)
      | (Inr _, calls) \<Rightarrow>
          (Inr (),
           h\<lparr> pollInterval := Some poll, heartbeatInterval := Some beat,
              isActive := True, startTime := now \<rparr>,
           calls))"

text \<open>
  \<open>deactivateSession\<close>: one DELETE, whatever the state of the listener; an error of the
  call is logged and swallowed.
\<close>

definition deactivateSession ::
  "RemoteCommandHandler \<Rightarrow> unit http_outcome \<Rightarrow> (js_error + unit) \<times> http_call list" where
  "deactivateSession h outcome =
     (case outcome of
        Resolved _ \<Rightarrow> (Inr (), [DeleteCliSession (apiUrl h @ ''/api/cli-session?sessionId='' @ sessionId h)])
      | AxiosError e m \<Rightarrow> (Inr (), [DeleteCliSession (apiUrl h @ ''/api/cli-session?sessionId='' @ sessionId h)]))"

text \<open>
  \<open>stop\<close>: clears the flag and the timers, then calls \<open>deactivateSession\<close>; its own
  \<open>catch\<close> logs whatever is thrown and returns.
\<close>

definition stop ::
  "RemoteCommandHandler \<Rightarrow> unit http_outcome \<Rightarrow> (js_error + unit) \<times> RemoteCommandHandler \<times> http_call list" where
  "stop h outcome =
     (let h1 = h\<lparr> isActive := False \<rparr>;
          h2 = (case pollInterval h1 of Some _ \<Rightarrow> h1\<lparr> pollInterval := None \<rparr> | None \<Rightarrow> h1);
          h3 = (case heartbeatInterval h2 of Some _ \<Rightarrow> h2\<lparr> heartbeatInterval := None \<rparr> | None \<Rightarrow> h2)
      in case deactivateSession h3 outcome of
           (Inl e, calls) \<Rightarrow> (Inr (), h3, calls)
         | (Inr _, calls) \<Rightarrow> (Inr (), h3, calls))"

text \<open>Two calls of \<open>stop\<close> in a row: the calls of both, in order.\<close>

definition stop_twice ::
  "RemoteCommandHandler \<Rightarrow> unit http_outcome \<Rightarrow> unit http_outcome \<Rightarrow>
   (js_error + unit) \<times> RemoteCommandHandler \<times> http_call list" where
  "stop_twice h o1 o2 =
     (case stop h o1 of
        (Inl e, h', calls) \<Rightarrow> (Inl e, h', calls)
      | (Inr _, h', calls) \<Rightarrow>
          (case stop h' o2 of (r, h'', calls') \<Rightarrow> (r, h'', calls @ calls')))"


subsection \<open>Executing one command\<close>

text \<open>
  \<open>handleEchoCommand\<close> (\<open>echo-command-handler.ts\<close>). \<open>post\<close> is the backend behind
  \<open>POST /api/echo-command\<close>: what the call settles to for a command and its arguments.
  The \<open>Error\<close> thrown inside the \<open>try\<close> for a falsy \<open>success\<close> is caught by the
  function's own \<open>catch\<close>; it is no axios error, so it is thrown again with the prefix.
\<close>

definition handleEchoCommand ::
  "(string \<Rightarrow> string list \<Rightarrow> api_data http_outcome) \<Rightarrow> string \<Rightarrow> js_error + string" where
  "handleEchoCommand post cmd =
     (case parseCliCommand cmd of
        (dashboardCommand, a) \<Rightarrow>
          (case post dashboardCommand a of
             Resolved d \<Rightarrow>
               (if data_success d
                then Inr (or_else (data_output d) ''Command executed successfully'')
                else Inl (Error (''API request failed: '' @
                                 or_else (data_error d) ''Command execution failed'')))
           | AxiosError e m \<Rightarrow>
               (if truthy e then Inl (Error (or_else e []))
                else Inl (Error (''API request failed: '' @ m)))))"


text \<open>\<open>executeEchoCommand\<close>: every error is thrown again as a new \<open>Error\<close> with a prefix.\<close>

definition executeEchoCommand ::
  "(string \<Rightarrow> string list \<Rightarrow> api_data http_outcome) \<Rightarrow> CommandRequest \<Rightarrow> js_error + string" where
  "executeEchoCommand post req =
     (case handleEchoCommand post (command req) of
        Inr r \<Rightarrow> Inr r
      | Inl e \<Rightarrow> Inl (Error (''Echo CLI command failed: '' @ message_of e)))"

text \<open>
  \<open>executeSystemCommand\<close>. \<open>exec\<close> is \<open>child_process.exec\<close>, called inside the
  executor of the promise, for a command line and options. Either \<open>exec\<close> itself throws
  before it starts a process (an empty command line, a NUL byte in it, an option out of
  range): the promise is then rejected with that error as it is, \<open>ExecThrows\<close> its
  message. Or the callback is called: \<open>ExecResult\<close> has the message of the callback's
  \<open>error\<close> (a non-zero exit, the timeout, the buffer limit or a failure to spawn; \<open>None\<close>
  when it is null), the standard output and the standard error.
\<close>

datatype exec_result = ExecThrows string | ExecResult "string option" string string

record exec_options =
  opt_timeout :: nat
  maxBuffer :: nat
  encoding :: string
  cwd :: "string option"

definition fullCommand :: "CommandRequest \<Rightarrow> string" where
  "fullCommand req =
     (let a = (case args req of None \<Rightarrow> [] | Some xs \<Rightarrow> xs)
      in if length a > 0 then command req @ '' '' @ join_sp a else command req)"

definition exec_options_of :: "CommandRequest \<Rightarrow> exec_options" where
  "exec_options_of req =
     \<lparr> opt_timeout = (case timeout req of None \<Rightarrow> 30000 | Some t \<Rightarrow> t),
       maxBuffer = 1024 * 1024,
       encoding = ''utf8'',
       cwd = (if truthy (workingDirectory req) then workingDirectory req else None) \<rparr>"

definition executeSystemCommand ::
  "(string \<Rightarrow> exec_options \<Rightarrow> exec_result) \<Rightarrow> CommandRequest \<Rightarrow> js_error + string" where
  "executeSystemCommand exec req =
     (case exec (fullCommand req) (exec_options_of req) of
        ExecThrows m \<Rightarrow> Inl (Error m)
      | ExecResult (Some m) _ _ \<Rightarrow> Inl (Error (''Command failed: '' @ m))
      | ExecResult None out err \<Rightarrow>
          Inr (trim (if out \<noteq> [] then out
                     else if err \<noteq> [] then err
                     else ''Command completed successfully'')))"

text \<open>
  \<open>reportCommandResult\<close>: the PUT it issues. \<open>sha256_hex\<close> is the SHA-256 digest in
  hexadecimal, \<open>now\<close> is \<open>Date.now()\<close> and \<open>isoNow\<close> is \<open>new Date().toISOString()\<close>. What
  the PUT settles to is logged only, so it is no argument.
\<close>

definition reportCommandResult ::
  "(string \<Rightarrow> string) \<Rightarrow> RemoteCommandHandler \<Rightarrow> CommandRequest \<Rightarrow>
   string option \<Rightarrow> string option \<Rightarrow> int \<Rightarrow> nat \<Rightarrow> string \<Rightarrow> http_call" where
  "reportCommandResult sha256_hex h req res err execTime now isoNow =
     (let cid = take 16 (sha256_hex (sessionId h @ ''-'' @ command req @ ''-'' @ decimal now))
      in PutRemoteCli (apiUrl h @ ''/api/remote-cli'') cid
           \<lparr> success = \<not> truthy err, output_text = res, error = err,
             executionTime = execTime, commandId = cid, timestamp = isoNow \<rparr>)"


fun put_result :: "http_call \<Rightarrow> CommandResult option" where
  "put_result (PutRemoteCli _ _ r) = Some r"
| "put_result _ = None"

text \<open>
  \<open>executeCommand\<close>. The clock is read at the start (\<open>t_start\<close>), after the \<open>try\<close>
  (\<open>t_end\<close>) and in the report (\<open>t_report\<close>, \<open>iso_report\<close>). The outcome of the executor
  is turned into \<open>result\<close> or \<open>error\<close>, and the report is sent in both cases. The function
  returns the listener with its counter raised, and the calls issued, in order.
\<close>

record clock =
  t_start :: nat
  t_end :: nat
  t_report :: nat
  iso_report :: string

definition execute_outcome ::
  "(string \<Rightarrow> string list \<Rightarrow> api_data http_outcome) \<Rightarrow> (string \<Rightarrow> exec_options \<Rightarrow> exec_result) \<Rightarrow>
   CommandRequest \<Rightarrow> js_error + string" where
  "execute_outcome post exec req =
     (if startsWithColon (command req) then executeEchoCommand post req
      else executeSystemCommand exec req)"

definition command_report ::
  "(string \<Rightarrow> string) \<Rightarrow> (string \<Rightarrow> string list \<Rightarrow> api_data http_outcome) \<Rightarrow>
   (string \<Rightarrow> exec_options \<Rightarrow> exec_result) \<Rightarrow> clock \<Rightarrow> RemoteCommandHandler \<Rightarrow> CommandRequest \<Rightarrow> http_call" where
  "command_report sha256_hex post exec clk h req =
     (let outcome = execute_outcome post exec req;
          res = (case outcome of Inr r \<Rightarrow> Some r | Inl _ \<Rightarrow> None);
          err = (case outcome of Inr _ \<Rightarrow> None | Inl e \<Rightarrow> Some (message_of e));
          execTime = int (t_end clk) - int (t_start clk)
      in reportCommandResult sha256_hex h req res err execTime (t_report clk) (iso_report clk))"



subsection \<open>The poll loop on the event loop\<close>

text \<open>
  \<open>startPolling\<close> arms a timer whose callback is an \<open>async\<close> function: each time the
  timer fires, a new invocation of the callback starts, whether or not an earlier one
  has returned. An invocation runs \<open>checkForCommands\<close> and is suspended at each \<open>await\<close>:
  at the GET, at the executor of the current command and at the PUT of its report. A
  \<open>tick\<close> is one such invocation: where it is suspended, the array
  \<open>response.data.commands\<close> it iterates over (empty until the loop is entered), and the
  position of the \<open>for ... of\<close> loop in it.
\<close>

datatype phase = AwaitGet | AwaitExec | AwaitReport | Finished

record tick =
  phase :: phase
  commands :: "CommandRequest list"
  pos :: nat

datatype pending_data = PendingData (pending_success: bool) (pending_commands: "CommandRequest list")

text \<open>
  The log records, with the number of the tick, when \<open>executeCommand\<close> is entered for a
  command, when its executor has settled (its result is computed) and when the PUT
  of its report has settled. Newest entries are last.
\<close>

datatype log_entry =
    Dispatched nat CommandRequest
  | Computed nat CommandRequest
  | Reported nat CommandRequest

fun entry_tick :: "log_entry \<Rightarrow> nat" where
  "entry_tick (Dispatched k _) = k"
| "entry_tick (Computed k _) = k"
| "entry_tick (Reported k _) = k"

record listener =
  handler :: RemoteCommandHandler
  ticks :: "tick list"
  log :: "log_entry list"

text \<open>
  What the event loop delivers: the poll timer fires (at a time), the GET of a tick
  settles, the executor of a tick's current command settles, the PUT of a tick settles,
  or \<open>stop\<close> is called (with what its DELETE settles to).
\<close>

datatype event =
    TimerFires nat
  | GetSettles nat "pending_data http_outcome"
  | ExecSettles nat
  | ReportSettles nat
  | StopCalled "unit http_outcome"

text \<open>Entering \<open>executeCommand\<close> for the command at the loop position of tick \<open>k\<close>.\<close>

definition dispatch :: "nat \<Rightarrow> listener \<Rightarrow> listener" where
  "dispatch k s =
     (let t = ticks s ! k
      in s\<lparr> handler := (handler s)\<lparr> commandCount := commandCount (handler s) + 1 \<rparr>,
            ticks := (ticks s)[k := t\<lparr> phase := AwaitExec \<rparr>],
            log := log s @ [Dispatched k (commands t ! pos t)] \<rparr>)"

definition finish :: "nat \<Rightarrow> listener \<Rightarrow> listener" where
  "finish k s = s\<lparr> ticks := (ticks s)[k := (ticks s ! k)\<lparr> phase := Finished \<rparr>] \<rparr>"

fun step :: "listener \<Rightarrow> event \<Rightarrow> listener" where
  "step s (TimerFires now) =
     (if pollInterval (handler s) \<noteq> None \<and> isActive (handler s)
      then s\<lparr> handler := (handler s)\<lparr> lastCommandCheck := Some now \<rparr>,
              ticks := ticks s @ [\<lparr> phase = AwaitGet, commands = [], pos = 0 \<rparr>] \<rparr>
      else s)"
| "step s (GetSettles k outcome) =
     (if k < length (ticks s) \<and> phase (ticks s ! k) = AwaitGet
      then (case outcome of
              Resolved d \<Rightarrow>
                (if pending_success d \<and> length (pending_commands d) > 0
                 then dispatch k
                        (s\<lparr> ticks := (ticks s)[k := \<lparr> phase = AwaitGet,
                                                       commands = pending_commands d, pos = 0 \<rparr>] \<rparr>)
                 else finish k s)
            | AxiosError _ _ \<Rightarrow> finish k s)
      else s)"
| "step s (ExecSettles k) =
     (if k < length (ticks s) \<and> phase (ticks s ! k) = AwaitExec
      then (let t = ticks s ! k
            in s\<lparr> ticks := (ticks s)[k := t\<lparr> phase := AwaitReport \<rparr>],
                  log := log s @ [Computed k (commands t ! pos t)] \<rparr>)
      else s)"
| "step s (ReportSettles k) =
     (if k < length (ticks s) \<and> phase (ticks s ! k) = AwaitReport
      then (let t = ticks s ! k;
                s' = s\<lparr> ticks := (ticks s)[k := t\<lparr> pos := pos t + 1 \<rparr>],
                        log := log s @ [Reported k (commands t ! pos t)] \<rparr>
            in if pos t + 1 < length (commands t) then dispatch k s' else finish k s')
      else s)"
| "step s (StopCalled outcome) =
     (case stop (handler s) outcome of (_, h', _) \<Rightarrow> s\<lparr> handler := h' \<rparr>)"

text \<open>
  The listener around a handler when no tick is in flight and nothing is logged, as it
  is when \<open>start\<close> returns; and the listener after a sequence of events.
\<close>

definition init_listener :: "RemoteCommandHandler \<Rightarrow> listener" where
  "init_listener h = \<lparr> handler = h, ticks = [], log = [] \<rparr>"

definition run :: "listener \<Rightarrow> event list \<Rightarrow> listener" where
  "run s es = foldl step s es"

text \<open>The commands whose executor is running: one for each tick suspended there.\<close>

definition executing :: "listener \<Rightarrow> CommandRequest list" where
  "executing s = map (\<lambda>t. commands t ! pos t) (filter (\<lambda>t. phase t = AwaitExec) (ticks s))"

text \<open>The entries of one tick, and the log of running a list of commands one after the other.\<close>

definition tick_log :: "nat \<Rightarrow> log_entry list \<Rightarrow> log_entry list" where
  "tick_log k l = filter (\<lambda>e. entry_tick e = k) l"

definition sequential :: "nat \<Rightarrow> CommandRequest list \<Rightarrow> log_entry list" where
  "sequential k cs = concat (map (\<lambda>c. [Dispatched k c, Computed k c, Reported k c]) cs)"

text \<open>
  The commands that \<open>checkForCommands\<close> iterates over, for what its GET settles to: the
  array \<open>response.data.commands\<close> when the call resolves with a truthy \<open>success\<close> and
  the array is not empty, and none otherwise.
\<close>

definition fetched_commands :: "pending_data http_outcome \<Rightarrow> CommandRequest list" where
  "fetched_commands outcome =
     (case outcome of
        Resolved d \<Rightarrow>
          (if pending_success d \<and> length (pending_commands d) > 0 then pending_commands d else [])
      | AxiosError _ _ \<Rightarrow> [])"

text \<open>
  What the log of tick \<open>k\<close> has to be, given where the tick stands: the full entries of
  the commands before the loop position, then the entries of the current command so
  far. A tick that is suspended at a command has its position inside the array. The
  invariant of the poll loop: every log entry is of a tick that exists, and every tick
  is well-formed and has exactly the expected log.
\<close>

definition tick_expected :: "nat \<Rightarrow> tick \<Rightarrow> log_entry list" where
  "tick_expected k t =
     sequential k (take (pos t) (commands t)) @
     (case phase t of
        AwaitGet \<Rightarrow> []
      | AwaitExec \<Rightarrow> [Dispatched k (commands t ! pos t)]
      | AwaitReport \<Rightarrow> [Dispatched k (commands t ! pos t), Computed k (commands t ! pos t)]
      | Finished \<Rightarrow> [])"

definition tick_wf :: "tick \<Rightarrow> bool" where
  "tick_wf t =
     (case phase t of
        AwaitGet \<Rightarrow> commands t = []
      | AwaitExec \<Rightarrow> pos t < length (commands t)
      | AwaitReport \<Rightarrow> pos t < length (commands t)
      | Finished \<Rightarrow> True)"

definition poll_inv :: "listener \<Rightarrow> bool" where
  "poll_inv s =
     (list_all (\<lambda>e. entry_tick e < length (ticks s)) (log s) \<and>
      list_all (\<lambda>k. tick_wf (ticks s ! k) \<and> tick_log k (log s) = tick_expected k (ticks s ! k))
        [0 ..< length (ticks s)])"


section \<open>Example values\<close>

definition example_handler :: RemoteCommandHandler where
  "example_handler =
     \<lparr> apiUrl = ''https://app.qirvo.ai'', authToken = ''token'', sessionId = ''session-1'',
       isActive = False, pollInterval = None, heartbeatInterval = None,
       capabilities = [''echo-cli'', ''system-commands''], version = ''1.0.0'',
       platform = ''linux-x64'', startTime = 0, commandCount = 0,
       lastHeartbeat = None, lastCommandCheck = None \<rparr>"

definition active_handler :: RemoteCommandHandler where
  "active_handler = example_handler\<lparr> isActive := True, pollInterval := Some 1, heartbeatInterval := Some 2 \<rparr>"

definition example_request :: "string \<Rightarrow> string \<Rightarrow> CommandRequest" where
  "example_request i c =
     \<lparr> id_req = i, command = c, args = None, workingDirectory = None, timeout = None,
       type_req = System, userId = ''user-1'', sessionId_req = ''session-1'',
       createdAt = ''2025-01-01T00:00:00.000Z'' \<rparr>"

definition example_clock :: clock where
  "example_clock = \<lparr> t_start = 1000, t_end = 1250, t_report = 1251, iso_report = ''2025-01-01T00:00:01.251Z'' \<rparr>"

text \<open>
  An \<open>exec\<close> that fails: it throws for the empty command line, and reports any other
  command as failed.
\<close>

definition failing_exec :: "string \<Rightarrow> exec_options \<Rightarrow> exec_result" where
  "failing_exec c opts =
     (if c = [] then ExecThrows ''The argument 'file' cannot be empty''
      else ExecResult (Some (''Command failed: '' @ c)) [] [])"

definition hello_exec :: "string \<Rightarrow> exec_options \<Rightarrow> exec_result" where
  "hello_exec c opts = ExecResult None (''hello'' @ [CHR 0x0A]) []"

definition empty_output_backend :: "string \<Rightarrow> string list \<Rightarrow> api_data http_outcome" where
  "empty_output_backend c a = Resolved (ApiData True (Some []) None)"

definition hello_backend :: "string \<Rightarrow> string list \<Rightarrow> api_data http_outcome" where
  "hello_backend c a = Resolved (ApiData True (Some ''hello'') None)"

definition failing_backend :: "string \<Rightarrow> string list \<Rightarrow> api_data http_outcome" where
  "failing_backend c a = Resolved (ApiData False None (Some ''unknown command''))"

text \<open>
  Two runs of the event loop. In the first the poll timer fires again while the command
  of the first tick is still executing. In the second the timer fires once, the GET of
  that tick settles with three commands, and the first two of them run to their end.
\<close>

definition overlapping_events :: "event list" where
  "overlapping_events =
     [TimerFires 5000,
      GetSettles 0 (Resolved (PendingData True [example_request ''a'' ''sleep 10''])),
      TimerFires 10000,
      GetSettles 1 (Resolved (PendingData True [example_request ''b'' ''ls'']))]"

definition batch_before :: "event list" where
  "batch_before = [TimerFires 5000]"

definition batch_outcome :: "pending_data http_outcome" where
  "batch_outcome =
     Resolved (PendingData True
       [example_request ''a'' ''git pull'', example_request ''b'' ''npm test'', example_request ''c'' ''ls''])"

definition batch_after :: "event list" where
  "batch_after = [ExecSettles 0, ReportSettles 0, ExecSettles 0, ReportSettles 0]"


section \<open>Properties of the string primitives\<close>

text \<open>\<open>split(/\s+/)\<close> never returns an empty array.\<close>

lemma split_scan_nonempty: "split_scan tok inws s \<noteq> []"
  by (induction tok inws s rule: split_scan.induct) auto

lemma split_ws_nonempty: "split_ws s \<noteq> []"
  by (simp add: split_ws_def split_scan_nonempty)

lemma split_scan_butlast:
  "tok \<noteq> [] \<or> inws \<Longrightarrow> [] \<notin> set (butlast (split_scan tok inws s))"
proof (induction tok inws s rule: split_scan.induct)
  case (1 tok inws)
  show ?case by simp
next
  case (2 tok inws c cs)
  show ?case
  proof (cases "isspace c")
    case False
    with 2 have "[] \<notin> set (butlast (split_scan (c # tok) False cs))" by simp
    with False show ?thesis by simp
  next
    case True
    with 2 have ih: "[] \<notin> set (butlast (split_scan [] True cs))" by (cases inws) simp_all
    show ?thesis
    proof (cases inws)
      case True
      with \<open>isspace c\<close> ih show ?thesis by simp
    next
      case False
      with "2.prems" have "tok \<noteq> []" by simp
      with False \<open>isspace c\<close> ih show ?thesis by (simp add: split_scan_nonempty)
    qed
  qed
qed

lemma split_scan_last:
  "(s = [] \<and> tok \<noteq> []) \<or> (s \<noteq> [] \<and> \<not> isspace (last s)) \<Longrightarrow> last (split_scan tok inws s) \<noteq> []"
  by (induction tok inws s rule: split_scan.induct) (auto simp: split_scan_nonempty split: if_splits)

lemma mem_butlast_or_last: "xs \<noteq> [] \<Longrightarrow> x \<in> set xs \<Longrightarrow> x \<in> set (butlast xs) \<or> x = last xs"
  by (induction xs) (auto split: if_splits)

lemma split_ws_trimmed:
  assumes "s \<noteq> []" "\<not> isspace (hd s)" "\<not> isspace (last s)"
  shows "[] \<notin> set (split_ws s)"
proof -
  obtain c cs where s: "s = c # cs" using assms(1) by (cases s) auto
  have c: "\<not> isspace c" using assms(2) s by simp
  have eq: "split_ws s = split_scan [c] False cs" using s c by (simp add: split_ws_def)
  have 1: "[] \<notin> set (butlast (split_ws s))" unfolding eq by (rule split_scan_butlast) simp
  have "(cs = [] \<and> [c] \<noteq> []) \<or> (cs \<noteq> [] \<and> \<not> isspace (last cs))"
    using assms(3) s by (cases "cs = []") simp_all
  then have 2: "last (split_ws s) \<noteq> []" unfolding eq by (rule split_scan_last)
  show ?thesis
  proof
    assume "[] \<in> set (split_ws s)"
    with split_ws_nonempty have "[] \<in> set (butlast (split_ws s)) \<or> [] = last (split_ws s)"
      by (rule mem_butlast_or_last)
    with 1 2 show False by simp
  qed
qed


lemma last_dropWhile: "dropWhile P xs \<noteq> [] \<Longrightarrow> last (dropWhile P xs) = last xs"
  by (induction xs) (auto split: if_splits)

lemma trim_ends: "trim s = [] \<or> (\<not> isspace (hd (trim s)) \<and> \<not> isspace (last (trim s)))"
proof (cases "trim s = []")
  case True then show ?thesis by simp
next
  case False
  let ?a = "dropWhile isspace s"
  let ?b = "dropWhile isspace (rev ?a)"
  have b: "?b \<noteq> []" using False by (simp add: trim_def)
  then have hb: "\<not> isspace (hd ?b)" by (metis hd_dropWhile)
  have "last (trim s) = hd ?b" using b by (simp add: trim_def last_rev)
  then have l: "\<not> isspace (last (trim s))" using hb by simp
  have a: "?a \<noteq> []"
  proof
    assume e: "?a = []"
    have "?b = []" unfolding e by simp
    with b show False by (simp only:)
  qed
  then have ha: "\<not> isspace (hd ?a)" by (metis hd_dropWhile)
  have "hd (trim s) = last ?b" using b by (simp add: trim_def hd_rev)
  also have "\<dots> = last (rev ?a)" using b by (rule last_dropWhile)
  also have "\<dots> = hd ?a" using a by (simp add: last_rev)
  finally show ?thesis using ha l by simp
qed

lemma tokens_cases: "split_ws (trim s) = [[]] \<or> [] \<notin> set (split_ws (trim s))"
proof (cases "trim s = []")
  case True
  have "split_ws [] = [[]]" by (simp add: split_ws_def)
  with True show ?thesis by simp
next
  case False
  with trim_ends[of s] have "\<not> isspace (hd (trim s))" "\<not> isspace (last (trim s))" by simp_all
  with False have "[] \<notin> set (split_ws (trim s))" by (rule split_ws_trimmed)
  then show ?thesis ..
qed


section \<open>Properties of the Command Translator\<close>

text \<open>
  C4. The claim: for the empty input string the translator returns the fixed help command
  \<open>:help\<close> with no arguments. The code tests \<open>parts.length === 0\<close> for that, but
  \<open>''.split(/\s+/)\<close> is the array of one empty string, so the test never holds
  (\<open>split_ws_nonempty\<close>): the empty input reaches the \<open>default\<close> case, which returns the
  bare sigil \<open>:\<close> with no arguments.
\<close>

theorem parseCliCommand_empty_input:
  "parseCliCommand [] = ('':'', []) \<and> parseCliCommand [] \<noteq> ('':help'', [])"
  by code_simp

text \<open>
  C5, as stated: the text \<open>task add "Write docs" -d "details"\<close> is translated to
  \<open>:task add\<close> with the arguments \<open>Write docs\<close>, \<open>-d\<close>, \<open>details\<close>. It is not: the
  translator splits at white space and knows no quotes.
\<close>

theorem task_add_quoted_not_one_argument:
  \<open>parseCliCommand ''task add "Write docs" -d "details"'' \<noteq>
     ('':task add'', [''Write docs'', ''-d'', ''details''])\<close>
  by code_simp

text \<open>
  C5, amended: the text \<open>task add "Write docs" -d "details"\<close> is translated to
  \<open>:task add\<close> with the four arguments \<open>"Write\<close>, \<open>docs"\<close>, \<open>-d\<close>, \<open>"details"\<close>: the
  pieces between white space, with the quote characters left in them.
\<close>

theorem task_add_quoted_tokens:
  \<open>parseCliCommand ''task add "Write docs" -d "details"'' =
     ('':task add'', [''"Write'', ''docs"'', ''-d'', ''"details"''])\<close>
  by code_simp

lemma parse_parts_task:
  "toLowerCase m = ''task'' \<Longrightarrow> sub \<notin> set task_subverbs \<Longrightarrow>
   parse_parts cmd (m # sub # rest) = ('':task list'', [])"
  by (simp add: parse_parts_def subCommand_of_def task_subverbs_def)

lemma parse_parts_git:
  "toLowerCase m = ''git'' \<Longrightarrow> sub \<notin> set git_subverbs \<Longrightarrow> sub \<noteq> [] \<Longrightarrow>
   parse_parts cmd (m # sub # rest) = ('':git status'', [])"
  by (simp add: parse_parts_def subCommand_of_def git_subverbs_def truthy_def)


text \<open>
  C10, as stated: for every recognized main verb, a sub-verb that is not in the verb's
  table gives the verb's default command with no arguments, the remaining pieces being
  discarded. The verb \<open>agent\<close> has the table \<open>ask\<close>, and passes an unknown sub-verb and
  the arguments through.
\<close>

theorem agent_unrecognized_subverb_passes_through:
  "parseCliCommand ''agent frobnicate x'' = ('':agent'', [''frobnicate'', ''x'']) \<and>
   snd (parseCliCommand ''agent frobnicate x'') \<noteq> []"
  by code_simp

text \<open>
  C10, amended: when the main verb is \<open>task\<close> or \<open>git\<close> (in any letter case) and the
  sub-verb is not in that verb's table, the translator returns the verb's default
  command, \<open>:task list\<close> or \<open>:git status\<close>, with no arguments: the sub-verb and the
  pieces after it are discarded.
\<close>

theorem unrecognized_subverb_task_git:
  assumes parts: "split_ws (trim (cleanCommand cmd)) = mainCommand # sub # rest"
    and verb: "(toLowerCase mainCommand = ''task'' \<and> sub \<notin> set task_subverbs) \<or>
               (toLowerCase mainCommand = ''git'' \<and> sub \<notin> set git_subverbs)"
  shows "parseCliCommand cmd =
           (if toLowerCase mainCommand = ''task'' then '':task list'' else '':git status'', [])"
proof -
  from parts tokens_cases[of "cleanCommand cmd"] have "[] \<notin> set (mainCommand # sub # rest)"
    by auto
  then have sub: "sub \<noteq> []" by auto
  from verb show ?thesis
  proof
    assume "toLowerCase mainCommand = ''task'' \<and> sub \<notin> set task_subverbs"
    then show ?thesis unfolding parseCliCommand_def parts by (simp add: parse_parts_task)
  next
    assume g: "toLowerCase mainCommand = ''git'' \<and> sub \<notin> set git_subverbs"
    then have "toLowerCase mainCommand \<noteq> ''task''" by simp
    with g sub show ?thesis unfolding parseCliCommand_def parts by (simp add: parse_parts_git)
  qed
qed

lemma tokens_task: "split_ws (trim (cleanCommand ''task frobnicate x'')) = [''task'', ''frobnicate'', ''x'']"
  by code_simp

lemma tokens_git: "split_ws (trim (cleanCommand ''git frobnicate x'')) = [''git'', ''frobnicate'', ''x'']"
  by code_simp

lemma lower_task: "toLowerCase ''task'' = ''task''" by code_simp
lemma lower_git: "toLowerCase ''git'' = ''git''" by code_simp

theorem unrecognized_subverb_task_git_witness:
  "parseCliCommand ''task frobnicate x'' = ('':task list'', []) \<and>
   parseCliCommand ''git frobnicate x'' = ('':git status'', [])"
proof
  have "''frobnicate'' \<notin> set task_subverbs" by (simp add: task_subverbs_def)
  with unrecognized_subverb_task_git[OF tokens_task] lower_task
  show "parseCliCommand ''task frobnicate x'' = ('':task list'', [])" by simp
next
  have "''frobnicate'' \<notin> set git_subverbs" by (simp add: git_subverbs_def)
  with unrecognized_subverb_task_git[OF tokens_git] lower_git
  show "parseCliCommand ''git frobnicate x'' = ('':git status'', [])" by simp
qed


section \<open>Properties of the listener\<close>

subsection \<open>The result report\<close>

lemma put_result_report:
  "put_result (command_report sha256_hex post exec clk h req) =
     Some \<lparr> success = \<not> truthy (case execute_outcome post exec req of Inr _ \<Rightarrow> None | Inl e \<Rightarrow> Some (message_of e)),
            output_text = (case execute_outcome post exec req of Inr r \<Rightarrow> Some r | Inl _ \<Rightarrow> None),
            error = (case execute_outcome post exec req of Inr _ \<Rightarrow> None | Inl e \<Rightarrow> Some (message_of e)),
            executionTime = int (t_end clk) - int (t_start clk),
            commandId = take 16 (sha256_hex (sessionId h @ ''-'' @ command req @ ''-'' @ decimal (t_report clk))),
            timestamp = iso_report clk \<rparr>"
  by (simp add: command_report_def reportCommandResult_def Let_def)




subsection \<open>Start and stop\<close>

lemma stop_eq:
  "stop h outcome =
     (Inr (), h\<lparr> isActive := False, pollInterval := None, heartbeatInterval := None \<rparr>,
      [DeleteCliSession (apiUrl h @ ''/api/cli-session?sessionId='' @ sessionId h)])"
  by (cases h; cases outcome) (simp_all add: stop_def deactivateSession_def Let_def split: option.splits)

text \<open>
  C3, as stated: \<open>stop\<close> on a stopped listener issues no second deregistration call, and
  two calls of \<open>stop\<close> have the backend-visible effect of one. Two calls of \<open>stop\<close> send
  two DELETE requests.
\<close>

theorem stop_twice_two_deregistrations:
  "length (filter is_delete (snd (snd (stop_twice active_handler (Resolved ()) (Resolved ()))))) = 2 \<and>
   snd (snd (stop_twice active_handler (Resolved ()) (Resolved ()))) \<noteq>
   snd (snd (stop active_handler (Resolved ())))"
  by (simp add: stop_twice_def stop_eq)

text \<open>
  C3, amended: \<open>stop\<close> on a listener that is already stopped raises no exception and
  leaves the state of the listener as it is, but it sends one more deregistration call:
  every call of \<open>stop\<close> sends exactly one DELETE for the session.
\<close>

theorem stop_on_stopped_listener:
  "stop (fst (snd (stop h o1))) o2 =
     (Inr (), fst (snd (stop h o1)),
      [DeleteCliSession (apiUrl h @ ''/api/cli-session?sessionId='' @ sessionId h)]) \<and>
   filter is_delete (snd (snd (stop h o1))) =
     [DeleteCliSession (apiUrl h @ ''/api/cli-session?sessionId='' @ sessionId h)]"
  by (simp add: stop_eq)

text \<open>
  C9, as stated: when the registration fails, by a network error or by the backend
  responding \<open>{success:false, error:e}\<close>, \<open>start\<close> rejects with the backend's message
  \<open>e\<close> when it is given. When that body comes with an error status, the call itself is
  rejected, and \<open>start\<close> rejects with the error of the call, whose message is not \<open>e\<close>.
\<close>

theorem error_status_rejection_keeps_call_message:
  "\<exists>x. fst (start example_handler
              (AxiosError (Some ''quota exceeded'') ''Request failed with status code 429'') 1 2 5) = Inl x \<and>
       message_of x = ''Request failed with status code 429'' \<and>
       message_of x \<noteq> ''quota exceeded''"
  by (simp add: start_def registerSession_def)

text \<open>
  C9, amended: when the registration fails, \<open>start\<close> rejects. If the call is rejected (a
  network error, or an error status, also one whose body is \<open>{success:false, error:e}\<close>),
  it rejects with the error of the call as it is. If the call resolves with a response
  whose \<open>success\<close> is false, it rejects with an \<open>Error\<close> whose message is the backend's
  \<open>error\<close> when that is given and not empty, and \<open>Failed to register session\<close> otherwise.
  The listener is left as it was constructed: not active, with no timer armed, so that
  no poll tick does anything; and the only call issued is the one POST.
\<close>

theorem start_rejects_when_registration_fails:
  assumes fresh: "new_handler url token uuid ver plat t0 = Inr h"
  shows "start h (AxiosError e m) poll beat now = (Inl (Axios e m), h, [register_call h]) \<and>
         start h (Resolved (ApiData False out None)) poll beat now =
           (Inl (Error ''Failed to register session''), h, [register_call h]) \<and>
         start h (Resolved (ApiData False out (Some msg))) poll beat now =
           (Inl (Error (if msg = [] then ''Failed to register session'' else msg)), h, [register_call h]) \<and>
         \<not> isActive h \<and> pollInterval h = None \<and> heartbeatInterval h = None \<and>
         step (init_listener h) (TimerFires t) = init_listener h"
proof -
  from fresh have h: "\<not> isActive h" "pollInterval h = None" "heartbeatInterval h = None"
    by (auto simp: new_handler_def split: if_splits)
  then show ?thesis by (simp add: start_def registerSession_def or_else_def init_listener_def)
qed

lemma new_example: "new_handler ''https://app.qirvo.ai/'' ''token'' ''session-1'' ''1.0.0'' ''linux-x64'' 0 = Inr example_handler"
  by (simp add: new_handler_def example_handler_def)

theorem start_rejects_when_registration_fails_witness:
  "start example_handler (Resolved (ApiData False None (Some ''quota exceeded''))) 1 2 5 =
     (Inl (Error ''quota exceeded''), example_handler, [register_call example_handler]) \<and>
   start example_handler (AxiosError None ''connect ECONNREFUSED'') 1 2 5 =
     (Inl (Axios None ''connect ECONNREFUSED''), example_handler, [register_call example_handler]) \<and>
   start example_handler (AxiosError (Some ''quota exceeded'') ''Request failed with status code 429'') 1 2 5 =
     (Inl (Axios (Some ''quota exceeded'') ''Request failed with status code 429''), example_handler,
      [register_call example_handler]) \<and>
   \<not> isActive example_handler"
  using start_rejects_when_registration_fails[OF new_example, of None "''connect ECONNREFUSED''" 1 2 5 None "''quota exceeded''" 0]
    start_rejects_when_registration_fails[OF new_example, of "Some ''quota exceeded''"
      "''Request failed with status code 429''" 1 2 5 None "''quota exceeded''" 0]
  by simp


subsection \<open>Executing one command\<close>

text \<open>
  C7: for a system command whose \<open>exec\<close> callback receives no error, the executor
  returns, and the report stores as \<open>output\<close>, the trimmed text of: the standard output
  if it is not empty, else the standard error if it is not empty, else the text
  \<open>Command completed successfully\<close>. The stored text is empty or neither starts nor ends
  with white space.
\<close>

theorem system_command_stored_output:
  assumes sys: "\<not> startsWithColon (command req)"
    and ok: "exec (fullCommand req) (exec_options_of req) = ExecResult None out err"
  shows "executeSystemCommand exec req =
           Inr (trim (if out \<noteq> [] then out else if err \<noteq> [] then err
                      else ''Command completed successfully'')) \<and>
         map_option output_text (put_result (command_report sha256_hex post exec clk h req)) =
           Some (Some (trim (if out \<noteq> [] then out else if err \<noteq> [] then err
                             else ''Command completed successfully''))) \<and>
         map_option success (put_result (command_report sha256_hex post exec clk h req)) = Some True \<and>
         (let stored = trim (if out \<noteq> [] then out else if err \<noteq> [] then err
                             else ''Command completed successfully'')
          in stored = [] \<or> (\<not> isspace (hd stored) \<and> \<not> isspace (last stored)))"
proof -
  let ?o = "trim (if out \<noteq> [] then out else if err \<noteq> [] then err else ''Command completed successfully'')"
  have 1: "executeSystemCommand exec req = Inr ?o" using ok by (simp add: executeSystemCommand_def)
  then have 2: "execute_outcome post exec req = Inr ?o" using sys by (simp add: execute_outcome_def)
  have 3: "?o = [] \<or> (\<not> isspace (hd ?o) \<and> \<not> isspace (last ?o))" by (rule trim_ends)
  show ?thesis using 1 2 3 by (simp add: put_result_report truthy_def Let_def)
qed

theorem system_command_stored_output_witness:
  "\<not> startsWithColon (command (example_request ''c1'' ''echo hello'')) \<and>
   executeSystemCommand hello_exec (example_request ''c1'' ''echo hello'') = Inr ''hello'' \<and>
   map_option output_text (put_result (command_report (\<lambda>s. s) (\<lambda>c a. AxiosError None []) hello_exec
        example_clock active_handler (example_request ''c1'' ''echo hello''))) = Some (Some ''hello'')"
proof -
  have sys: "\<not> startsWithColon (command (example_request ''c1'' ''echo hello''))"
    by (simp add: example_request_def startsWithColon_def)
  have ok: "hello_exec (fullCommand (example_request ''c1'' ''echo hello''))
              (exec_options_of (example_request ''c1'' ''echo hello'')) = ExecResult None (''hello'' @ [CHR 0x0A]) []"
    by (simp add: hello_exec_def)
  show ?thesis
    using sys system_command_stored_output[where exec = hello_exec
        and req = "example_request ''c1'' ''echo hello''" and out = "''hello'' @ [CHR 0x0A]" and err = "[]"
        and ?sha256_hex = "\<lambda>s. s" and post = "\<lambda>c a. AxiosError None []" and clk = example_clock
        and h = active_handler, OF sys ok]
    by (simp add: trim_def isspace_def)
qed

text \<open>
  C6, as stated: an internal command returns the backend's output verbatim whenever the
  backend reports success. A backend that reports success with the empty output gets
  the text \<open>Command executed successfully\<close> back instead.
\<close>

theorem empty_output_not_verbatim:
  "handleEchoCommand empty_output_backend '':help'' = Inr ''Command executed successfully'' \<and>
   (\<forall>sha256_hex exec.
      map_option output_text
        (put_result (command_report sha256_hex empty_output_backend exec example_clock active_handler
                       (example_request ''c1'' '':help''))) =
      Some (Some ''Command executed successfully'')) \<and>
   ''Command executed successfully'' \<noteq> []"
  by (simp add: put_result_report execute_outcome_def executeEchoCommand_def handleEchoCommand_def
      empty_output_backend_def example_request_def startsWithColon_def or_else_def split: prod.splits)

lemma handleEchoCommand_outcome:
  assumes "post (fst (parseCliCommand c)) (snd (parseCliCommand c)) = outcome"
  shows "handleEchoCommand post c =
     (case outcome of
        Resolved d \<Rightarrow>
          (if data_success d
           then Inr (or_else (data_output d) ''Command executed successfully'')
           else Inl (Error (''API request failed: '' @ or_else (data_error d) ''Command execution failed'')))
      | AxiosError e m \<Rightarrow>
          (if truthy e then Inl (Error (or_else e [])) else Inl (Error (''API request failed: '' @ m))))"
  using assms by (cases "parseCliCommand c") (auto simp: handleEchoCommand_def)

text \<open>
  C6, amended: for an internal command (its text starts with \<open>:\<close>), when the backend
  reports success the stored output is the backend's output verbatim if that is present
  and not empty, and the text \<open>Command executed successfully\<close> otherwise. A forwarding
  failure, an error of the call or a response whose \<open>success\<close> is false, ends in a report
  with \<open>success\<close> false, a null output and the failure's message after the words
  \<open>Echo CLI command failed:\<close>; the report is sent in every case.
\<close>

theorem internal_command_report:
  assumes echo: "startsWithColon (command req)"
    and resp: "post (fst (parseCliCommand (command req))) (snd (parseCliCommand (command req))) = outcome"
  shows "\<exists>r. put_result (command_report sha256_hex post exec clk h req) = Some r \<and>
    (case outcome of
       Resolved d \<Rightarrow>
         (if data_success d
          then success r \<and> error r = None \<and>
               output_text r =
                 Some (case data_output d of
                         None \<Rightarrow> ''Command executed successfully''
                       | Some s \<Rightarrow> if s = [] then ''Command executed successfully'' else s)
          else \<not> success r \<and> output_text r = None \<and>
               error r =
                 Some (''Echo CLI command failed: API request failed: '' @
                       (case data_error d of
                          None \<Rightarrow> ''Command execution failed''
                        | Some e \<Rightarrow> if e = [] then ''Command execution failed'' else e)))
     | AxiosError e m \<Rightarrow>
         \<not> success r \<and> output_text r = None \<and>
         error r =
           Some (''Echo CLI command failed: '' @
                 (case e of
                    None \<Rightarrow> ''API request failed: '' @ m
                  | Some x \<Rightarrow> if x = [] then ''API request failed: '' @ m else x)))"
proof -
  have o: "execute_outcome post exec req =
        (case handleEchoCommand post (command req) of
           Inr r \<Rightarrow> Inr r
         | Inl e \<Rightarrow> Inl (Error (''Echo CLI command failed: '' @ message_of e)))"
    using echo by (simp add: execute_outcome_def executeEchoCommand_def)
  show ?thesis
    unfolding put_result_report o
      handleEchoCommand_outcome[where post = post and c = "command req" and outcome = outcome, OF resp]
    by (cases outcome)
       (auto simp: truthy_def or_else_def split: option.splits)
qed

theorem internal_command_report_witness:
  "startsWithColon (command (example_request ''c1'' '':task list'')) \<and>
   map_option output_text
     (put_result (command_report (\<lambda>s. s) hello_backend (\<lambda>c opts. ExecResult None [] []) example_clock active_handler
                    (example_request ''c1'' '':task list''))) = Some (Some ''hello'') \<and>
   map_option error
     (put_result (command_report (\<lambda>s. s) failing_backend (\<lambda>c opts. ExecResult None [] []) example_clock active_handler
                    (example_request ''c1'' '':task list''))) =
     Some (Some ''Echo CLI command failed: API request failed: unknown command'')"
proof -
  have echo: "startsWithColon (command (example_request ''c1'' '':task list''))"
    by (simp add: example_request_def startsWithColon_def)
  have r1: "hello_backend (fst (parseCliCommand (command (example_request ''c1'' '':task list''))))
              (snd (parseCliCommand (command (example_request ''c1'' '':task list'')))) =
            Resolved (ApiData True (Some ''hello'') None)"
    by (simp add: hello_backend_def)
  have r2: "failing_backend (fst (parseCliCommand (command (example_request ''c1'' '':task list''))))
              (snd (parseCliCommand (command (example_request ''c1'' '':task list'')))) =
            Resolved (ApiData False None (Some ''unknown command''))"
    by (simp add: failing_backend_def)
  show ?thesis
    using echo
      internal_command_report[where post = hello_backend and req = "example_request ''c1'' '':task list''"
        and outcome = "Resolved (ApiData True (Some ''hello'') None)" and ?sha256_hex = "\<lambda>s. s"
        and exec = "\<lambda>c opts. ExecResult None [] []" and clk = example_clock and h = active_handler,
        OF echo r1]
      internal_command_report[where post = failing_backend and req = "example_request ''c1'' '':task list''"
        and outcome = "Resolved (ApiData False None (Some ''unknown command''))" and ?sha256_hex = "\<lambda>s. s"
        and exec = "\<lambda>c opts. ExecResult None [] []" and clk = example_clock and h = active_handler,
        OF echo r2]
    by auto
qed


text \<open>
  C8: the report of a command, from what \<open>exec\<close> or the backend does. For a system
  command: when \<open>exec\<close> throws, the report has \<open>success\<close> false, a null output and the
  thrown message as \<open>error\<close>; when the callback receives an error (non-zero exit, timeout,
  buffer limit, failure to spawn), the report has \<open>success\<close> false, a null output and as
  \<open>error\<close> that error's message after the words \<open>Command failed:\<close>; when the callback
  receives no error, \<open>success\<close> is true and \<open>error\<close> is null. For an internal command: a
  failure to forward gives \<open>success\<close> false, a null output and the failure's message
  after the words \<open>Echo CLI command failed:\<close>; a success of the backend gives \<open>success\<close>
  true and a null \<open>error\<close>. In every case \<open>error\<close> is present exactly when \<open>success\<close> is
  false. The messages of the errors that \<open>exec\<close> throws are not empty; that is the
  hypothesis.
\<close>

theorem failed_execution_report:
  assumes thrown: "startsWithColon (command req) \<or>
                   exec (fullCommand req) (exec_options_of req) \<noteq> ExecThrows []"
  shows "\<exists>r. put_result (command_report sha256_hex post exec clk h req) = Some r \<and>
      ((error r \<noteq> None) = (\<not> success r)) \<and>
      (if startsWithColon (command req)
       then (case post (fst (parseCliCommand (command req))) (snd (parseCliCommand (command req))) of
               Resolved d \<Rightarrow>
                 (if data_success d
                  then success r \<and> error r = None \<and> output_text r \<noteq> None
                  else \<not> success r \<and> output_text r = None \<and>
                       error r =
                         Some (''Echo CLI command failed: API request failed: '' @
                               or_else (data_error d) ''Command execution failed''))
             | AxiosError e m \<Rightarrow>
                 \<not> success r \<and> output_text r = None \<and>
                 error r =
                   Some (''Echo CLI command failed: '' @
                         (if truthy e then or_else e [] else ''API request failed: '' @ m)))
       else (case exec (fullCommand req) (exec_options_of req) of
               ExecThrows m \<Rightarrow> \<not> success r \<and> output_text r = None \<and> error r = Some m
             | ExecResult None out err \<Rightarrow> success r \<and> error r = None \<and> output_text r \<noteq> None
             | ExecResult (Some m) out err \<Rightarrow>
                 \<not> success r \<and> output_text r = None \<and> error r = Some (''Command failed: '' @ m)))"
proof (cases "startsWithColon (command req)")
  case True
  have o: "execute_outcome post exec req =
        (case handleEchoCommand post (command req) of
           Inr r \<Rightarrow> Inr r
         | Inl e \<Rightarrow> Inl (Error (''Echo CLI command failed: '' @ message_of e)))"
    using True by (simp add: execute_outcome_def executeEchoCommand_def)
  show ?thesis
    unfolding put_result_report o
      handleEchoCommand_outcome[where post = post and c = "command req", OF refl]
    using True
    by (cases "post (fst (parseCliCommand (command req))) (snd (parseCliCommand (command req)))")
       (auto simp: truthy_def or_else_def split: option.splits)
next
  case False
  with thrown have ne: "exec (fullCommand req) (exec_options_of req) \<noteq> ExecThrows []" by simp
  have o: "execute_outcome post exec req = executeSystemCommand exec req"
    using False by (simp add: execute_outcome_def)
  show ?thesis
    unfolding put_result_report o using False ne
    by (cases "exec (fullCommand req) (exec_options_of req)")
       (auto simp: executeSystemCommand_def truthy_def split: option.splits)
qed

theorem failed_execution_report_witness:
  "(startsWithColon (command (example_request ''c1'' ''false'')) \<or>
    failing_exec (fullCommand (example_request ''c1'' ''false'')) (exec_options_of (example_request ''c1'' ''false''))
      \<noteq> ExecThrows []) \<and>
   (\<exists>r. put_result (command_report (\<lambda>s. s) hello_backend failing_exec example_clock active_handler
                      (example_request ''c1'' ''false'')) = Some r \<and>
        \<not> success r \<and> output_text r = None \<and> error r = Some ''Command failed: Command failed: false'') \<and>
   (\<exists>r. put_result (command_report (\<lambda>s. s) hello_backend failing_exec example_clock active_handler
                      (example_request ''c2'' [])) = Some r \<and>
        \<not> success r \<and> output_text r = None \<and> error r = Some ''The argument 'file' cannot be empty'')"
proof -
  have h1: "startsWithColon (command (example_request ''c1'' ''false'')) \<or>
    failing_exec (fullCommand (example_request ''c1'' ''false'')) (exec_options_of (example_request ''c1'' ''false''))
      \<noteq> ExecThrows []"
    by (simp add: failing_exec_def fullCommand_def example_request_def)
  have h2: "startsWithColon (command (example_request ''c2'' [])) \<or>
    failing_exec (fullCommand (example_request ''c2'' [])) (exec_options_of (example_request ''c2'' []))
      \<noteq> ExecThrows []"
    by (simp add: failing_exec_def fullCommand_def example_request_def)
  have e1: "failing_exec (fullCommand (example_request ''c1'' ''false'')) (exec_options_of (example_request ''c1'' ''false''))
      = ExecResult (Some ''Command failed: false'') [] []"
    by (simp add: failing_exec_def fullCommand_def example_request_def)
  have e2: "failing_exec (fullCommand (example_request ''c2'' [])) (exec_options_of (example_request ''c2'' []))
      = ExecThrows ''The argument 'file' cannot be empty''"
    by (simp add: failing_exec_def fullCommand_def example_request_def)
  have s1: "\<not> startsWithColon (command (example_request ''c1'' ''false''))"
    and s2: "\<not> startsWithColon (command (example_request ''c2'' []))"
    by (simp_all add: example_request_def startsWithColon_def)
  show ?thesis
    using h1
      failed_execution_report[where exec = failing_exec and req = "example_request ''c1'' ''false''"
        and ?sha256_hex = "\<lambda>s. s" and post = hello_backend and clk = example_clock and h = active_handler, OF h1]
      failed_execution_report[where exec = failing_exec and req = "example_request ''c2'' []"
        and ?sha256_hex = "\<lambda>s. s" and post = hello_backend and clk = example_clock and h = active_handler, OF h2]
    unfolding e1 e2 using s1 s2 by auto
qed


subsection \<open>The poll loop\<close>

lemma poll_invI:
  assumes "\<And>e. e \<in> set (log s) \<Longrightarrow> entry_tick e < length (ticks s)"
    and "\<And>k. k < length (ticks s) \<Longrightarrow> tick_wf (ticks s ! k)"
    and "\<And>k. k < length (ticks s) \<Longrightarrow> tick_log k (log s) = tick_expected k (ticks s ! k)"
  shows "poll_inv s"
  using assms by (simp add: poll_inv_def list_all_iff)

lemma poll_invD:
  assumes "poll_inv s"
  shows "e \<in> set (log s) \<Longrightarrow> entry_tick e < length (ticks s)"
    and "k < length (ticks s) \<Longrightarrow> tick_wf (ticks s ! k)"
    and "k < length (ticks s) \<Longrightarrow> tick_log k (log s) = tick_expected k (ticks s ! k)"
  using assms by (simp_all add: poll_inv_def list_all_iff)

lemma tick_log_append: "tick_log k (l @ es) = tick_log k l @ tick_log k es"
  by (simp add: tick_log_def)

lemma tick_log_same: "\<forall>e \<in> set es. entry_tick e = k \<Longrightarrow> tick_log k es = es"
  by (simp add: tick_log_def)

lemma tick_log_other: "\<forall>e \<in> set es. entry_tick e = k \<Longrightarrow> j \<noteq> k \<Longrightarrow> tick_log j es = []"
  by (auto simp: tick_log_def filter_empty_conv)

lemma tick_log_fresh: "\<forall>e \<in> set l. entry_tick e < n \<Longrightarrow> tick_log n l = []"
  by (auto simp: tick_log_def filter_empty_conv)

lemma sequential_append: "sequential k (xs @ ys) = sequential k xs @ sequential k ys"
  by (simp add: sequential_def)

lemma sequential_take_Suc:
  "p < length cs \<Longrightarrow>
   sequential k (take (Suc p) cs) =
     sequential k (take p cs) @ [Dispatched k (cs ! p), Computed k (cs ! p), Reported k (cs ! p)]"
  by (simp add: take_Suc_conv_app_nth sequential_append) (simp add: sequential_def)

lemma sequential_split:
  "p < length cs \<Longrightarrow>
   sequential k cs =
     sequential k (take p cs) @ [Dispatched k (cs ! p), Computed k (cs ! p), Reported k (cs ! p)] @
     sequential k (drop (Suc p) cs)"
proof -
  assume p: "p < length cs"
  have "sequential k cs = sequential k (take (Suc p) cs @ drop (Suc p) cs)" by simp
  also have "\<dots> = sequential k (take (Suc p) cs) @ sequential k (drop (Suc p) cs)"
    by (rule sequential_append)
  finally show ?thesis using p by (simp add: sequential_take_Suc)
qed

lemma poll_inv_handler [simp]: "poll_inv (s\<lparr> handler := h \<rparr>) = poll_inv s"
  by (simp add: poll_inv_def)

lemma poll_inv_eq: "ticks s' = ticks s \<Longrightarrow> log s' = log s \<Longrightarrow> poll_inv s' = poll_inv s"
  by (simp add: poll_inv_def)

lemma poll_inv_update:
  assumes inv: "poll_inv s" and k: "k < length (ticks s)" and wf: "tick_wf t'"
    and ex: "tick_expected k t' = tick_expected k (ticks s ! k) @ es"
    and es: "\<forall>e \<in> set es. entry_tick e = k"
  shows "poll_inv (s\<lparr> ticks := (ticks s)[k := t'], log := log s @ es \<rparr>)"
proof (rule poll_invI)
  fix e assume "e \<in> set (log (s\<lparr> ticks := (ticks s)[k := t'], log := log s @ es \<rparr>))"
  then have "e \<in> set (log s) \<or> e \<in> set es" by simp
  then show "entry_tick e < length (ticks (s\<lparr> ticks := (ticks s)[k := t'], log := log s @ es \<rparr>))"
    using poll_invD(1)[OF inv] es k by auto
next
  fix j assume "j < length (ticks (s\<lparr> ticks := (ticks s)[k := t'], log := log s @ es \<rparr>))"
  then have j: "j < length (ticks s)" by simp
  show "tick_wf (ticks (s\<lparr> ticks := (ticks s)[k := t'], log := log s @ es \<rparr>) ! j)"
    using poll_invD(2)[OF inv j] wf k by (cases "j = k") simp_all
next
  fix j assume "j < length (ticks (s\<lparr> ticks := (ticks s)[k := t'], log := log s @ es \<rparr>))"
  then have j: "j < length (ticks s)" by simp
  show "tick_log j (log (s\<lparr> ticks := (ticks s)[k := t'], log := log s @ es \<rparr>)) =
        tick_expected j (ticks (s\<lparr> ticks := (ticks s)[k := t'], log := log s @ es \<rparr>) ! j)"
  proof (cases "j = k")
    case True
    then show ?thesis
      using poll_invD(3)[OF inv k] ex k tick_log_same[OF es] by (simp add: tick_log_append)
  next
    case False
    then show ?thesis
      using poll_invD(3)[OF inv j] tick_log_other[OF es False] by (simp add: tick_log_append)
  qed
qed


lemma poll_inv_timer:
  assumes inv: "poll_inv s"
  shows "poll_inv (s\<lparr> ticks := ticks s @ [\<lparr> phase = AwaitGet, commands = [], pos = 0 \<rparr>] \<rparr>)"
proof (rule poll_invI)
  fix e assume "e \<in> set (log (s\<lparr> ticks := ticks s @ [\<lparr> phase = AwaitGet, commands = [], pos = 0 \<rparr>] \<rparr>))"
  then have "entry_tick e < length (ticks s)" using poll_invD(1)[OF inv] by simp
  then show "entry_tick e < length (ticks (s\<lparr> ticks := ticks s @ [\<lparr> phase = AwaitGet, commands = [], pos = 0 \<rparr>] \<rparr>))"
    by simp
next
  fix j assume "j < length (ticks (s\<lparr> ticks := ticks s @ [\<lparr> phase = AwaitGet, commands = [], pos = 0 \<rparr>] \<rparr>))"
  then have j: "j < length (ticks s) \<or> j = length (ticks s)" by auto
  then show "tick_wf (ticks (s\<lparr> ticks := ticks s @ [\<lparr> phase = AwaitGet, commands = [], pos = 0 \<rparr>] \<rparr>) ! j)"
    using poll_invD(2)[OF inv] by (auto simp: nth_append tick_wf_def)
  have fresh: "tick_log (length (ticks s)) (log s) = []"
    using poll_invD(1)[OF inv] by (intro tick_log_fresh) simp
  from j show "tick_log j (log (s\<lparr> ticks := ticks s @ [\<lparr> phase = AwaitGet, commands = [], pos = 0 \<rparr>] \<rparr>)) =
        tick_expected j (ticks (s\<lparr> ticks := ticks s @ [\<lparr> phase = AwaitGet, commands = [], pos = 0 \<rparr>] \<rparr>) ! j)"
    using poll_invD(3)[OF inv] fresh by (auto simp: nth_append tick_expected_def sequential_def)
qed

lemma poll_inv_finish:
  assumes inv: "poll_inv s" and k: "k < length (ticks s)"
    and ph: "phase (ticks s ! k) = AwaitGet"
  shows "poll_inv (finish k s)"
proof -
  have c: "commands (ticks s ! k) = []" using poll_invD(2)[OF inv k] ph by (simp add: tick_wf_def)
  have "poll_inv (s\<lparr> ticks := (ticks s)[k := (ticks s ! k)\<lparr> phase := Finished \<rparr>], log := log s @ [] \<rparr>)"
    using inv k by (rule poll_inv_update) (simp_all add: tick_wf_def tick_expected_def ph c)
  then show ?thesis by (simp add: finish_def)
qed

lemma poll_inv_step: "poll_inv s \<Longrightarrow> poll_inv (step s e)"
proof (cases e)
  case (TimerFires now)
  assume inv: "poll_inv s"
  show ?thesis
  proof (cases "pollInterval (handler s) \<noteq> None \<and> isActive (handler s)")
    case False
    then show ?thesis using inv TimerFires by auto
  next
    case True
    have "poll_inv (step s e) =
          poll_inv (s\<lparr> ticks := ticks s @ [\<lparr> phase = AwaitGet, commands = [], pos = 0 \<rparr>] \<rparr>)"
      using TimerFires True by (intro poll_inv_eq) auto
    then show ?thesis using poll_inv_timer[OF inv] by simp
  qed
next
  case (GetSettles k outcome)
  assume inv: "poll_inv s"
  show ?thesis
  proof (cases "k < length (ticks s) \<and> phase (ticks s ! k) = AwaitGet")
    case False
    then show ?thesis using inv GetSettles by auto
  next
    case True
    then have k: "k < length (ticks s)" and ph: "phase (ticks s ! k) = AwaitGet" by simp_all
    have c: "commands (ticks s ! k) = []" using poll_invD(2)[OF inv k] ph by (simp add: tick_wf_def)
    show ?thesis
    proof (cases outcome)
      case (AxiosError e m)
      then show ?thesis using GetSettles True poll_inv_finish[OF inv k ph] by simp
    next
      case (Resolved d)
      show ?thesis
      proof (cases "pending_success d \<and> length (pending_commands d) > 0")
        case False
        then show ?thesis using GetSettles True Resolved poll_inv_finish[OF inv k ph] by auto
      next
        case go: True
        let ?t = "\<lparr> phase = AwaitExec, commands = pending_commands d, pos = 0 \<rparr>"
        have "poll_inv (s\<lparr> ticks := (ticks s)[k := ?t],
                            log := log s @ [Dispatched k (pending_commands d ! 0)] \<rparr>)"
          using inv k go by (intro poll_inv_update) (simp_all add: tick_wf_def tick_expected_def ph c sequential_def)
        moreover have "step s e =
            (s\<lparr> ticks := (ticks s)[k := ?t], log := log s @ [Dispatched k (pending_commands d ! 0)] \<rparr>)
             \<lparr> handler := (handler s)\<lparr> commandCount := commandCount (handler s) + 1 \<rparr> \<rparr>"
          using GetSettles True Resolved go k by (simp add: dispatch_def)
        ultimately show ?thesis by simp
      qed
    qed
  qed
next
  case (ExecSettles k)
  assume inv: "poll_inv s"
  show ?thesis
  proof (cases "k < length (ticks s) \<and> phase (ticks s ! k) = AwaitExec")
    case False
    then show ?thesis using inv ExecSettles by auto
  next
    case True
    then have k: "k < length (ticks s)" and ph: "phase (ticks s ! k) = AwaitExec" by simp_all
    have p: "pos (ticks s ! k) < length (commands (ticks s ! k))"
      using poll_invD(2)[OF inv k] ph by (simp add: tick_wf_def)
    have "poll_inv (s\<lparr> ticks := (ticks s)[k := (ticks s ! k)\<lparr> phase := AwaitReport \<rparr>],
                        log := log s @ [Computed k (commands (ticks s ! k) ! pos (ticks s ! k))] \<rparr>)"
      using inv k p by (intro poll_inv_update) (simp_all add: tick_wf_def tick_expected_def ph)
    then show ?thesis using ExecSettles True by (simp add: Let_def)
  qed
next
  case (ReportSettles k)
  assume inv: "poll_inv s"
  show ?thesis
  proof (cases "k < length (ticks s) \<and> phase (ticks s ! k) = AwaitReport")
    case False
    then show ?thesis using inv ReportSettles by auto
  next
    case True
    then have k: "k < length (ticks s)" and ph: "phase (ticks s ! k) = AwaitReport" by simp_all
    let ?t = "ticks s ! k"
    let ?c = "commands ?t ! pos ?t"
    have p: "pos ?t < length (commands ?t)"
      using poll_invD(2)[OF inv k] ph by (simp add: tick_wf_def)
    show ?thesis
    proof (cases "pos ?t + 1 < length (commands ?t)")
      case more: True
      let ?t' = "?t\<lparr> pos := pos ?t + 1, phase := AwaitExec \<rparr>"
      have "poll_inv (s\<lparr> ticks := (ticks s)[k := ?t'],
                          log := log s @ [Reported k ?c, Dispatched k (commands ?t ! (pos ?t + 1))] \<rparr>)"
        using inv k p more
        by (intro poll_inv_update) (simp_all add: tick_wf_def tick_expected_def ph sequential_take_Suc)
      moreover have "step s e =
          (s\<lparr> ticks := (ticks s)[k := ?t'],
              log := log s @ [Reported k ?c, Dispatched k (commands ?t ! (pos ?t + 1))] \<rparr>)
           \<lparr> handler := (handler s)\<lparr> commandCount := commandCount (handler s) + 1 \<rparr> \<rparr>"
        using ReportSettles True more k by (simp add: dispatch_def Let_def)
      ultimately show ?thesis by simp
    next
      case last: False
      let ?t' = "?t\<lparr> pos := pos ?t + 1, phase := Finished \<rparr>"
      have "poll_inv (s\<lparr> ticks := (ticks s)[k := ?t'], log := log s @ [Reported k ?c] \<rparr>)"
        using inv k p
        by (intro poll_inv_update) (simp_all add: tick_wf_def tick_expected_def ph sequential_take_Suc)
      moreover have "step s e = s\<lparr> ticks := (ticks s)[k := ?t'], log := log s @ [Reported k ?c] \<rparr>"
        using ReportSettles True last k by (simp add: finish_def Let_def)
      ultimately show ?thesis by simp
    qed
  qed
next
  case (StopCalled outcome)
  assume inv: "poll_inv s"
  then show ?thesis using StopCalled by (simp split: prod.splits)
qed

lemma poll_inv_run: "poll_inv s \<Longrightarrow> poll_inv (run s es)"
  unfolding run_def by (induction es arbitrary: s) (simp_all add: poll_inv_step)

lemma poll_inv_init: "poll_inv (init_listener h)"
  by (simp add: poll_inv_def init_listener_def)

lemma tick_expected_prefix:
  assumes "tick_wf t"
  shows "prefix (tick_expected k t) (sequential k (commands t))"
proof (cases "phase t")
  case AwaitGet
  then show ?thesis using assms by (simp add: tick_expected_def tick_wf_def sequential_def)
next
  case AwaitExec
  then have p: "pos t < length (commands t)" using assms by (simp add: tick_wf_def)
  show ?thesis unfolding sequential_split[OF p, of k] using AwaitExec by (simp add: tick_expected_def)
next
  case AwaitReport
  then have p: "pos t < length (commands t)" using assms by (simp add: tick_wf_def)
  show ?thesis unfolding sequential_split[OF p, of k] using AwaitReport by (simp add: tick_expected_def)
next
  case Finished
  have "sequential k (commands t) = sequential k (take (pos t) (commands t) @ drop (pos t) (commands t))"
    by simp
  also have "\<dots> = sequential k (take (pos t) (commands t)) @ sequential k (drop (pos t) (commands t))"
    by (rule sequential_append)
  finally show ?thesis using Finished by (simp add: tick_expected_def)
qed


lemma start_example:
  "start example_handler (Resolved (ApiData True None None)) 1 2 0 =
     (Inr (), active_handler, [register_call example_handler])"
  by (simp add: start_def registerSession_def active_handler_def example_handler_def)

text \<open>
  C2, as stated: in every reachable state at most one Command Request is being executed,
  and no two executions ever overlap. When the poll timer fires again while the command
  of the first tick is still executing, the second tick fetches and starts its own
  command: two commands are executing at once.
\<close>

theorem two_ticks_execute_at_once:
  "executing (run (init_listener active_handler) overlapping_events) =
     [example_request ''a'' ''sleep 10'', example_request ''b'' ''ls''] \<and>
   \<not> length (executing (run (init_listener active_handler) overlapping_events)) \<le> 1"
  by (simp add: overlapping_events_def run_def init_listener_def active_handler_def
      dispatch_def finish_def executing_def Let_def)

text \<open>
  Once the GET of a tick has settled, the array the tick iterates over does not change.
\<close>

lemma tick_log_prefix_commands:
  assumes "poll_inv s" and "k < length (ticks s)"
  shows "prefix (tick_log k (log s)) (sequential k (commands (ticks s ! k)))"
  using poll_invD(2)[OF assms] poll_invD(3)[OF assms] tick_expected_prefix by simp

lemma step_keeps_commands:
  assumes "k < length (ticks s)" and "phase (ticks s ! k) \<noteq> AwaitGet"
  shows "k < length (ticks (step s e)) \<and> phase (ticks (step s e) ! k) \<noteq> AwaitGet \<and>
         commands (ticks (step s e) ! k) = commands (ticks s ! k)"
proof (cases e)
  case (TimerFires now)
  then show ?thesis using assms by (simp add: nth_append)
next
  case (GetSettles j outcome)
  then show ?thesis using assms
    by (cases "j = k")
       (auto simp: dispatch_def finish_def Let_def nth_list_update split: http_outcome.splits)
next
  case (ExecSettles j)
  then show ?thesis using assms by (cases "j = k") (auto simp: Let_def nth_list_update)
next
  case (ReportSettles j)
  then show ?thesis using assms
    by (cases "j = k") (auto simp: dispatch_def finish_def Let_def nth_list_update)
next
  case (StopCalled outcome)
  then show ?thesis using assms by (simp split: prod.splits)
qed

lemma run_keeps_commands:
  "k < length (ticks s) \<Longrightarrow> phase (ticks s ! k) \<noteq> AwaitGet \<Longrightarrow>
   k < length (ticks (run s es)) \<and> commands (ticks (run s es) ! k) = commands (ticks s ! k)"
proof (induction es arbitrary: s)
  case Nil
  then show ?case by (simp add: run_def)
next
  case (Cons e es)
  from step_keeps_commands[OF Cons.prems, of e]
  have 1: "k < length (ticks (step s e))" and 2: "phase (ticks (step s e) ! k) \<noteq> AwaitGet"
    and 3: "commands (ticks (step s e) ! k) = commands (ticks s ! k)" by simp_all
  have "run s (e # es) = run (step s e) es" by (simp add: run_def)
  with Cons.IH[OF 1 2] 3 show ?case by simp
qed

lemma get_settles_commands:
  assumes inv: "poll_inv s" and k: "k < length (ticks s)" and ph: "phase (ticks s ! k) = AwaitGet"
  shows "k < length (ticks (step s (GetSettles k outcome))) \<and>
         phase (ticks (step s (GetSettles k outcome)) ! k) \<noteq> AwaitGet \<and>
         commands (ticks (step s (GetSettles k outcome)) ! k) = fetched_commands outcome"
proof -
  have c: "commands (ticks s ! k) = []" using poll_invD(2)[OF inv k] ph by (simp add: tick_wf_def)
  show ?thesis using k ph c
    by (cases outcome) (auto simp: fetched_commands_def dispatch_def finish_def Let_def)
qed

text \<open>
  C2, amended: in every state the listener reaches after \<open>start\<close>, the commands of one
  poll tick execute strictly sequentially, in the order received. A tick whose GET has
  not settled has logged nothing; once the GET has settled, whatever happens later, the
  tick iterates over the commands the GET returned, and its log is a prefix of
  dispatched, computed, reported for the first of them, then the same for the second,
  and so on. So for a tick returning \<open>[A, B]\<close>, B is not dispatched before A's result has
  been computed and its report has settled. The commands of different ticks may execute
  at the same time.
\<close>

theorem commands_of_a_tick_run_in_sequence:
  assumes reach: "s = run (init_listener h) es"
    and k: "k < length (ticks s)"
    and waiting: "phase (ticks s ! k) = AwaitGet"
    and later: "s' = run s (GetSettles k outcome # es')"
  shows "tick_log k (log s) = [] \<and>
         commands (ticks s' ! k) = fetched_commands outcome \<and>
         prefix (tick_log k (log s')) (sequential k (fetched_commands outcome))"
proof -
  have inv: "poll_inv s" using reach poll_inv_run[OF poll_inv_init] by simp
  have c: "commands (ticks s ! k) = []" using poll_invD(2)[OF inv k] waiting by (simp add: tick_wf_def)
  have empty: "tick_log k (log s) = []"
    using poll_invD(3)[OF inv k] waiting c by (simp add: tick_expected_def sequential_def)
  let ?s1 = "step s (GetSettles k outcome)"
  have s': "s' = run ?s1 es'" using later by (simp add: run_def)
  from get_settles_commands[OF inv k waiting, of outcome]
  have 1: "k < length (ticks ?s1)" and 2: "phase (ticks ?s1 ! k) \<noteq> AwaitGet"
    and 3: "commands (ticks ?s1 ! k) = fetched_commands outcome" by simp_all
  from run_keeps_commands[OF 1 2, of es'] 3 s'
  have k': "k < length (ticks s')" and cmds: "commands (ticks s' ! k) = fetched_commands outcome"
    by simp_all
  have inv': "poll_inv s'" unfolding later using inv by (rule poll_inv_run)
  from tick_log_prefix_commands[OF inv' k'] cmds empty show ?thesis by simp
qed

lemma batch_before_run:
  "run (init_listener active_handler) batch_before =
     \<lparr> handler = active_handler\<lparr> lastCommandCheck := Some 5000 \<rparr>,
       ticks = [\<lparr> phase = AwaitGet, commands = [], pos = 0 \<rparr>], log = [] \<rparr>"
  by (simp add: batch_before_def run_def init_listener_def active_handler_def)

lemma batch_after_log:
  "log (run (run (init_listener active_handler) batch_before) (GetSettles 0 batch_outcome # batch_after)) =
     [Dispatched 0 (example_request ''a'' ''git pull''), Computed 0 (example_request ''a'' ''git pull''),
      Reported 0 (example_request ''a'' ''git pull''),
      Dispatched 0 (example_request ''b'' ''npm test''), Computed 0 (example_request ''b'' ''npm test''),
      Reported 0 (example_request ''b'' ''npm test''),
      Dispatched 0 (example_request ''c'' ''ls'')]"
  unfolding batch_before_run
  by (simp add: batch_outcome_def batch_after_def run_def dispatch_def finish_def Let_def)

theorem commands_of_a_tick_run_in_sequence_witness:
  "0 < length (ticks (run (init_listener active_handler) batch_before)) \<and>
   phase (ticks (run (init_listener active_handler) batch_before) ! 0) = AwaitGet \<and>
   fetched_commands batch_outcome =
     [example_request ''a'' ''git pull'', example_request ''b'' ''npm test'', example_request ''c'' ''ls''] \<and>
   tick_log 0 (log (run (run (init_listener active_handler) batch_before)
                      (GetSettles 0 batch_outcome # batch_after))) =
     [Dispatched 0 (example_request ''a'' ''git pull''), Computed 0 (example_request ''a'' ''git pull''),
      Reported 0 (example_request ''a'' ''git pull''),
      Dispatched 0 (example_request ''b'' ''npm test''), Computed 0 (example_request ''b'' ''npm test''),
      Reported 0 (example_request ''b'' ''npm test''),
      Dispatched 0 (example_request ''c'' ''ls'')] \<and>
   prefix (tick_log 0 (log (run (run (init_listener active_handler) batch_before)
                              (GetSettles 0 batch_outcome # batch_after))))
     (sequential 0 (fetched_commands batch_outcome))"
proof -
  have len: "0 < length (ticks (run (init_listener active_handler) batch_before))"
    by (simp add: batch_before_run)
  have ph: "phase (ticks (run (init_listener active_handler) batch_before) ! 0) = AwaitGet"
    by (simp add: batch_before_run)
  have f: "fetched_commands batch_outcome =
     [example_request ''a'' ''git pull'', example_request ''b'' ''npm test'', example_request ''c'' ''ls'']"
    by (simp add: fetched_commands_def batch_outcome_def)
  show ?thesis
    using len ph f commands_of_a_tick_run_in_sequence[OF refl len ph refl, of batch_outcome batch_after]
    by (simp add: batch_after_log tick_log_def)
qed

end
